theory Spec2Isabelle
  imports Main
begin

section \<open>Data model\<close>

text \<open>
  Modelled from the spec: the enumerations \<open>Stage\<close> and \<open>Source\<close> and the exception
  classes live in the module \<open>types\<close>, which is not among the sources. The spec lists the
  build phases (compilation, core/archive build, link) and the source kinds (assembly, C,
  C++ and the sketch/entry unit); \<open>all_sources\<close> is the iteration order of
  \<open>for source in Source\<close>, taken in the order of that list.
\<close>

datatype Stage = COMPILATION | CORE | LINK

datatype Source = ASM | C | CPP | INO

definition all_sources :: "Source list" where
  "all_sources = [ASM, C, CPP, INO]"

text \<open>
  Every \<open>raise\<close> of the code is a value of \<open>error\<close>. \<open>NotInList x\<close> is the
  \<open>ValueError\<close> of \<open>list.index(x)\<close>, \<open>ValueError\<close> the one of \<open>shlex\<close> (with its message),
  \<open>IndexError\<close> the one of \<open>xs[0]\<close> on an empty list, \<open>GenericException\<close> a plain
  \<open>Exception(msg)\<close>, \<open>re_error\<close> the error of \<open>re.compile\<close>. \<open>Unsupported_regex p\<close> is
  not an exception of the program: it marks a pattern outside the fragment of regular
  expressions that this development models.
\<close>

datatype error =
    MissingStageException Stage
  | MultipleInvocationException
  | ArduinoCLIException string
  | ValueError string
  | NotInList string
  | IndexError
  | AssertionError string
  | GenericException string
  | re_error string
  | Unsupported_regex string

type_synonym 'a result = "error + 'a"

section \<open>Python strings and lists\<close>

text \<open>
  A \<open>char\<close> stands for one code point below 256. \<open>startswith\<close>, \<open>endswith\<close> and
  \<open>contains_str\<close> (\<open>sub in s\<close>) are the methods of \<open>str\<close>.
\<close>

definition startswith :: "string \<Rightarrow> string \<Rightarrow> bool" where
  "startswith s p = (take (length p) s = p)"

definition endswith :: "string \<Rightarrow> string \<Rightarrow> bool" where
  "endswith s p = (length p \<le> length s \<and> drop (length s - length p) s = p)"

fun contains_str :: "string \<Rightarrow> string \<Rightarrow> bool" where
  "contains_str sub [] = (sub = [])"
| "contains_str sub (c # s) = (startswith (c # s) sub \<or> contains_str sub s)"

text \<open>\<open>str.replace(old, new)\<close>: every non-overlapping occurrence, left to right.\<close>

fun replace_nonempty :: "string \<Rightarrow> string \<Rightarrow> string \<Rightarrow> string" where
  "replace_nonempty old new [] = []"
| "replace_nonempty old new (c # s) =
     (if startswith (c # s) old
      then new @ replace_nonempty old new (drop (length old - 1) s)
      else c # replace_nonempty old new s)"

definition str_replace :: "string \<Rightarrow> string \<Rightarrow> string \<Rightarrow> string" where
  "str_replace s old new =
     (if old = [] then new @ concat (map (\<lambda>c. c # new) s)
      else replace_nonempty old new s)"

text \<open>\<open>str.strip()\<close>: the code points below 256 for which \<open>isspace\<close> holds.\<close>

definition py_isspace :: "char \<Rightarrow> bool" where
  "py_isspace c = (of_char c \<in> {9, 10, 11, 12, 13, 28, 29, 30, 31, 32, 133, 160 :: nat})"

definition strip :: "string \<Rightarrow> string" where
  "strip s = rev (dropWhile py_isspace (rev (dropWhile py_isspace s)))"

text \<open>\<open>xs.index(x)\<close>: the first position of \<open>x\<close>, or \<open>ValueError\<close>.\<close>

fun list_index :: "string list \<Rightarrow> string \<Rightarrow> nat result" where
  "list_index [] x = Inl (NotInList x)"
| "list_index (y # ys) x =
     (if y = x then Inr 0
      else case list_index ys x of Inl e \<Rightarrow> Inl e | Inr i \<Rightarrow> Inr (Suc i))"

text \<open>
  Slices. \<open>slice_to_minus1 xs a\<close> is \<open>xs[a:-1]\<close> and \<open>slice xs a b\<close> is \<open>xs[a:b]\<close> for
  \<open>a, b \<ge> 0\<close>: Python clamps both ends to the list.
\<close>

definition slice :: "'a list \<Rightarrow> nat \<Rightarrow> nat \<Rightarrow> 'a list" where
  "slice xs a b = drop a (take b xs)"

definition slice_to_minus1 :: "'a list \<Rightarrow> nat \<Rightarrow> 'a list" where
  "slice_to_minus1 xs a = drop a (take (length xs - 1) xs)"

section \<open>The library functions the code calls\<close>

subsection \<open>\<open>re\<close>: a fragment of Python's regular expressions\<close>

text \<open>
  The patterns of the program are literal characters, \<open>.\<close>, an escaped punctuation character,
  the anchors \<open>^\<close> and \<open>$\<close>, and a character set \<open>[...]\<close> of literal members. That fragment
  is modelled with Python's meaning: \<open>.\<close> is any character but a newline, \<open>^\<close> holds at the
  start of the string, \<open>$\<close> at its end or before a newline that ends it, and inside a set
  every member stands for itself (so \<open>$\<close> and \<open>|\<close> in \<open>[ |$]\<close> are the characters).
  Quantifiers, groups, alternation, letter or digit escapes, and ranges or negation in a set
  are outside the fragment: \<open>re_compile\<close> answers \<open>Unsupported_regex\<close> for them.
\<close>

datatype atom = Lit char | AnyChar | CharSet "char list" | Bol | Eol

definition newline :: char where
  "newline = CHR 0x0A"

definition backslash :: char where
  "backslash = CHR 0x5C"

definition is_alnum :: "char \<Rightarrow> bool" where
  "is_alnum c = (let n = (of_char c :: nat) in
     (48 \<le> n \<and> n \<le> 57) \<or> (65 \<le> n \<and> n \<le> 90) \<or> (97 \<le> n \<and> n \<le> 122))"

text \<open>
  \<open>re_parse p cls s\<close> reads the rest \<open>s\<close> of the pattern \<open>p\<close>; \<open>cls\<close> holds the members read so
  far when \<open>s\<close> starts inside a character set.
\<close>

fun re_parse :: "string \<Rightarrow> char list option \<Rightarrow> string \<Rightarrow> atom list result" where
  "re_parse p None [] = Inr []"
| "re_parse p (Some acc) [] = Inl (re_error ''unterminated character set'')"
| "re_parse p (Some acc) (c # cs) =
     (if c = CHR '']'' then
        (if acc = [] then Inl (Unsupported_regex p)
         else case re_parse p None cs of Inl e \<Rightarrow> Inl e | Inr as \<Rightarrow> Inr (CharSet acc # as))
      else if c = backslash \<or> c \<in> set ''[^-'' then Inl (Unsupported_regex p)
      else re_parse p (Some (acc @ [c])) cs)"
| "re_parse p None (c # cs) =
     (if c = backslash then
        (case cs of
           [] \<Rightarrow> Inl (re_error ''bad escape (end of pattern)'')
         | d # ds \<Rightarrow>
             (if is_alnum d then Inl (Unsupported_regex p)
              else case re_parse p None ds of Inl e \<Rightarrow> Inl e | Inr as \<Rightarrow> Inr (Lit d # as)))
      else if c = CHR ''['' then re_parse p (Some []) cs
      else if c \<in> set ''*+?{()|'' then Inl (Unsupported_regex p)
      else case re_parse p None cs of
             Inl e \<Rightarrow> Inl e
           | Inr as \<Rightarrow>
               Inr ((if c = CHR ''.'' then AnyChar
                     else if c = CHR ''^'' then Bol
                     else if c = CHR ''$'' then Eol
                     else Lit c) # as))"

definition re_compile :: "string \<Rightarrow> atom list result" where
  "re_compile p = re_parse p None p"

text \<open>
  \<open>match_at as at_start s\<close>: the atoms match a prefix of \<open>s\<close>, where \<open>s\<close> is the rest of the
  subject and \<open>at_start\<close> says that nothing precedes it.
\<close>

fun match_at :: "atom list \<Rightarrow> bool \<Rightarrow> string \<Rightarrow> bool" where
  "match_at [] b s = True"
| "match_at (Bol # as) b s = (b \<and> match_at as b s)"
| "match_at (Eol # as) b s = ((s = [] \<or> s = [newline]) \<and> match_at as b s)"
| "match_at (Lit c # as) b [] = False"
| "match_at (Lit c # as) b (x # s) = (x = c \<and> match_at as False s)"
| "match_at (AnyChar # as) b [] = False"
| "match_at (AnyChar # as) b (x # s) = (x \<noteq> newline \<and> match_at as False s)"
| "match_at (CharSet cs # as) b [] = False"
| "match_at (CharSet cs # as) b (x # s) = (x \<in> set cs \<and> match_at as False s)"

fun search_from :: "atom list \<Rightarrow> bool \<Rightarrow> string \<Rightarrow> bool" where
  "search_from as b [] = match_at as b []"
| "search_from as b (x # s) = (match_at as b (x # s) \<or> search_from as False s)"

text \<open>\<open>pattern.search(item) is not None\<close>.\<close>

definition re_search :: "atom list \<Rightarrow> string \<Rightarrow> bool" where
  "re_search as item = search_from as True item"

subsection \<open>\<open>shlex.split\<close>\<close>

text \<open>
  \<open>shlex.split(s)\<close> runs the POSIX-mode lexer with \<open>whitespace_split\<close> set and no comment
  characters. The lexer's state is a blank (\<open>' '\<close>), a word (\<open>'a'\<close>), an open quote, or an
  escape that remembers the state to return to (\<open>None\<close> for the word state, \<open>Some q\<close> for the
  quote \<open>q\<close>). \<open>quoted\<close> records that the token being read had a quote, so that \<open>''\<close> gives
  an empty token. Inside double quotes a backslash escapes only \<open>"\<close> and itself; inside
  single quotes it is an ordinary character.
\<close>

datatype lex_state = Blank | Word | Quote char | Escape "char option"

definition shlex_whitespace :: "char \<Rightarrow> bool" where
  "shlex_whitespace c = (of_char c \<in> {32, 9, 13, 10 :: nat})"

definition shlex_quote :: "char \<Rightarrow> bool" where
  "shlex_quote c = (c = CHR 0x27 \<or> c = CHR 0x22)"

definition emit :: "string \<Rightarrow> string list result \<Rightarrow> string list result" where
  "emit tok r = (case r of Inl e \<Rightarrow> Inl e | Inr ts \<Rightarrow> Inr (tok # ts))"

fun read_tokens :: "lex_state \<Rightarrow> bool \<Rightarrow> string \<Rightarrow> string \<Rightarrow> string list result" where
  "read_tokens Blank quoted tok [] = Inr []"
| "read_tokens Blank quoted tok (c # cs) =
     (if shlex_whitespace c then read_tokens Blank False [] cs
      else if c = backslash then read_tokens (Escape None) False [] cs
      else if shlex_quote c then read_tokens (Quote c) True [] cs
      else read_tokens Word False [c] cs)"
| "read_tokens (Quote q) quoted tok [] = Inl (ValueError ''No closing quotation'')"
| "read_tokens (Quote q) quoted tok (c # cs) =
     (if c = q then read_tokens Word True tok cs
      else if c = backslash \<and> q = CHR 0x22 then read_tokens (Escape (Some q)) True tok cs
      else read_tokens (Quote q) True (tok @ [c]) cs)"
| "read_tokens (Escape ret) quoted tok [] = Inl (ValueError ''No escaped character'')"
| "read_tokens (Escape ret) quoted tok (c # cs) =
     (case ret of
        None \<Rightarrow> read_tokens Word quoted (tok @ [c]) cs
      | Some q \<Rightarrow>
          read_tokens (Quote q) quoted
            ((if c \<noteq> backslash \<and> c \<noteq> q then tok @ [backslash] else tok) @ [c]) cs)"
| "read_tokens Word quoted tok [] = Inr (if tok = [] \<and> \<not> quoted then [] else [tok])"
| "read_tokens Word quoted tok (c # cs) =
     (if shlex_whitespace c then
        (if tok \<noteq> [] \<or> quoted then emit tok (read_tokens Blank False [] cs)
         else read_tokens Blank False [] cs)
      else if shlex_quote c then read_tokens (Quote c) True tok cs
      else if c = backslash then read_tokens (Escape None) quoted tok cs
      else read_tokens Word quoted (tok @ [c]) cs)"

definition shlex_split :: "string \<Rightarrow> string list result" where
  "shlex_split s = read_tokens Blank False [] s"

subsection \<open>\<open>pathlib\<close>: POSIX paths\<close>

text \<open>
  A path is its root (\<open>''\<close>, \<open>/\<close> or \<open>//\<close>) and its components, without the empty ones and
  the \<open>.\<close> ones, as \<open>PurePosixPath\<close> parses a string.
\<close>

record path =
  path_root :: string
  path_parts :: "string list"

fun split_sep :: "char \<Rightarrow> string \<Rightarrow> string list" where
  "split_sep sep [] = [[]]"
| "split_sep sep (x # xs) =
     (if x = sep then [] # split_sep sep xs
      else case split_sep sep xs of [] \<Rightarrow> [[x]] | w # ws \<Rightarrow> (x # w) # ws)"

definition splitroot :: "string \<Rightarrow> string \<times> string" where
  "splitroot p =
     (if take 1 p \<noteq> ''/'' then ([], p)
      else if take 1 (drop 1 p) \<noteq> ''/'' \<or> take 1 (drop 2 p) = ''/'' then (''/'', drop 1 p)
      else (''//'', drop 2 p))"

definition Path :: "string \<Rightarrow> path" where
  "Path p = (case splitroot p of (r, rel) \<Rightarrow>
     \<lparr>path_root = r, path_parts = filter (\<lambda>x. x \<noteq> [] \<and> x \<noteq> ''.'') (split_sep CHR ''/'' rel)\<rparr>)"

definition path_name :: "path \<Rightarrow> string" where
  "path_name p = (if path_parts p = [] then [] else last (path_parts p))"

definition path_parent :: "path \<Rightarrow> path" where
  "path_parent p = (if path_parts p = [] then p else p\<lparr>path_parts := butlast (path_parts p)\<rparr>)"

fun join_sep :: "string \<Rightarrow> string list \<Rightarrow> string" where
  "join_sep sep [] = []"
| "join_sep sep [x] = x"
| "join_sep sep (x # y # ys) = x @ sep @ join_sep sep (y # ys)"

definition path_str :: "path \<Rightarrow> string" where
  "path_str p =
     (let s = path_root p @ join_sep ''/'' (path_parts p) in if s = [] then ''.'' else s)"

section \<open>Module util\<close>

fun compile_all :: "string list \<Rightarrow> atom list list result" where
  "compile_all [] = Inr []"
| "compile_all (p # ps) =
     (case re_compile p of
        Inl e \<Rightarrow> Inl e
      | Inr m \<Rightarrow> (case compile_all ps of Inl e \<Rightarrow> Inl e | Inr ms \<Rightarrow> Inr (m # ms)))"

definition match_any :: "string list \<Rightarrow> string \<Rightarrow> bool result" where
  "match_any matches item =
     (case compile_all matches of
        Inl e \<Rightarrow> Inl e
      | Inr matchers \<Rightarrow> Inr (list_ex (\<lambda>potential. re_search potential item) matchers))"

definition match_all :: "string list \<Rightarrow> string \<Rightarrow> bool result" where
  "match_all matches item =
     (case compile_all matches of
        Inl e \<Rightarrow> Inl e
      | Inr matchers \<Rightarrow> Inr (list_all (\<lambda>potential. re_search potential item) matchers))"

text \<open>
  \<open>safe_split\<close> re-raises the lexer's \<open>ValueError\<close> with the line in its message, or
  returns no token when \<open>ignore_errors\<close> is set.
\<close>

definition safe_split :: "string \<Rightarrow> bool \<Rightarrow> string list result" where
  "safe_split line ignore_errors =
     (case shlex_split (strip line) of
        Inr ts \<Rightarrow> Inr ts
      | Inl (ValueError ve) \<Rightarrow>
          (if ignore_errors then Inr []
           else Inl (ValueError (ve @ '' in '' @ [CHR 0x27] @ line @ [CHR 0x27])))
      | Inl e \<Rightarrow> Inl e)"

section \<open>Module parse: segmenting the log\<close>

definition lines_between :: "string list \<Rightarrow> string \<Rightarrow> string option \<Rightarrow> string list result" where
  "lines_between output_lines start_phrase end_phrase =
     (case list_index output_lines start_phrase of
        Inl e \<Rightarrow> Inl e
      | Inr start_index \<Rightarrow>
          (case end_phrase of
             None \<Rightarrow> Inr (slice_to_minus1 output_lines (start_index + 1))
           | Some ep \<Rightarrow>
               (case list_index output_lines ep of
                  Inl e \<Rightarrow> Inl e
                | Inr stop_index \<Rightarrow> Inr (slice output_lines (start_index + 1) stop_index))))"

text \<open>
  The loop body of \<open>parse_compilation_commands\<close> for one entry of the mapping.
  \<open>matching_lines\<close> is a \<open>filter\<close> object, which is always true, so the test
  \<open>if not matching_lines\<close> never raises: an empty selection fails at \<open>list(...)[0]\<close> with
  \<open>IndexError\<close>. \<open>expected_command_values\<close> is \<open>shell_split[:1] + shell_split[2:-3]\<close>.
\<close>

definition filter_function_compile :: "string \<Rightarrow> string \<Rightarrow> bool" where
  "filter_function_compile filename item =
     (item \<noteq> ''-o'' \<and> \<not> endswith item filename \<and> \<not> endswith item (filename @ ''.o'')
      \<and> item \<noteq> ''-c'')"

definition expected_command_values :: "string list \<Rightarrow> string list" where
  "expected_command_values shell_split =
     take 1 shell_split @ drop 2 (take (length shell_split - 3) shell_split)"

definition compilation_command :: "string list \<Rightarrow> path \<Rightarrow> string list result" where
  "compilation_command compilation_lines p =
     (let filename = path_name p;
          matching_lines = filter (contains_str (filename @ ''.o'')) compilation_lines
      in case matching_lines of
           [] \<Rightarrow> Inl IndexError
         | line # _ \<Rightarrow>
             (case shlex_split line of
                Inl e \<Rightarrow> Inl e
              | Inr shell_split \<Rightarrow>
                  (let necessary_command_values =
                         filter (filter_function_compile filename) shell_split
                   in if necessary_command_values = expected_command_values shell_split
                      then Inr necessary_command_values
                      else Inl (AssertionError
                                  ''Necessary arguments are usually all but the last 3''))))"

fun for_items :: "('a \<Rightarrow> 'b result) \<Rightarrow> ('k \<times> 'a) list \<Rightarrow> ('k \<times> 'b) list result" where
  "for_items f [] = Inr []"
| "for_items f ((k, v) # kvs) =
     (case f v of
        Inl e \<Rightarrow> Inl e
      | Inr r \<Rightarrow> (case for_items f kvs of Inl e \<Rightarrow> Inl e | Inr rs \<Rightarrow> Inr ((k, r) # rs)))"

text \<open>
  A dictionary with insertion order is an association list with distinct keys; the result
  has one entry per entry of \<open>mapping\<close>, in its order.
\<close>

definition parse_compilation_commands ::
  "string list \<Rightarrow> (string \<times> path) list \<Rightarrow> (string \<times> string list) list result" where
  "parse_compilation_commands output_lines mapping =
     (case lines_between output_lines ''Compiling sketch...'' (Some ''Compiling libraries...'') of
        Inl e \<Rightarrow> Inl e
      | Inr compilation_lines \<Rightarrow> for_items (compilation_command compilation_lines) mapping)"

definition filter_function_link :: "path \<Rightarrow> string \<Rightarrow> bool" where
  "filter_function_link core_path item =
     (item \<noteq> ''-o'' \<and> \<not> endswith item ''ino.elf'' \<and> \<not> endswith item ''.o''
      \<and> \<not> endswith item ''core.a''
      \<and> \<not> endswith item (path_str (path_parent (path_parent core_path))))"

definition parse_linker_commands :: "string list \<Rightarrow> (path \<times> string list) result" where
  "parse_linker_commands output_lines =
     (case lines_between output_lines ''Linking everything together...'' None of
        Inl e \<Rightarrow> Inl e
      | Inr linking_lines \<Rightarrow>
          (case linking_lines of
             [] \<Rightarrow> Inl (GenericException ''Failed to find linking lines'')
           | first_line # _ \<Rightarrow>
               (case shlex_split first_line of
                  Inl e \<Rightarrow> Inl e
                | Inr linker_shell_split \<Rightarrow>
                    (case filter (\<lambda>item. endswith item ''core.a'') linker_shell_split of
                       [] \<Rightarrow> Inl IndexError
                     | core # _ \<Rightarrow>
                         Inr (Path core,
                              filter (filter_function_link (Path core)) linker_shell_split)))))"

section \<open>Module miner\<close>

definition real_source_names :: "(Source \<times> path) list \<Rightarrow> (Source \<times> string) list" where
  "real_source_names source_mappings =
     map (\<lambda>(source, v). (source, if source \<noteq> INO then path_name v else path_name v @ ''.cpp''))
       source_mappings"

text \<open>
  A flag table maps a flag to a boolean or to a callable on the previous token:
  \<open>flag_holds\<close> is the test
  \<open>(callable(check) and check(previous)) or (not callable(check) and check)\<close>.
\<close>

datatype flag_check = Flag bool | Callable "string \<Rightarrow> bool"

fun flag_holds :: "flag_check \<Rightarrow> string \<Rightarrow> bool" where
  "flag_holds (Flag b) previous = b"
| "flag_holds (Callable check) previous = check previous"

definition filterer_flags ::
  "(string \<times> flag_check) list \<Rightarrow> bool \<Rightarrow> string \<Rightarrow> string \<Rightarrow> bool result" where
  "filterer_flags flags negate token previous =
     (case match_any (map fst flags) (take 2 token) of
        Inl e \<Rightarrow> Inl e
      | Inr v1 \<Rightarrow>
          (case (if v1 then Inr True
                 else match_any (map fst (filter (\<lambda>(flag, check). flag_holds check previous) flags))
                        (take 2 previous)) of
             Inl e \<Rightarrow> Inl e
           | Inr v \<Rightarrow> Inr (if negate then \<not> v else v)))"

text \<open>
  The comprehension of \<open>filter_by_flags\<close> walks the tokens with
  \<open>previous = tokens[max(0, index - 1)]\<close>: the first token is its own predecessor.
\<close>

fun keep_unless :: "(string \<Rightarrow> string \<Rightarrow> bool result) \<Rightarrow> string \<Rightarrow> string list \<Rightarrow> string list result" where
  "keep_unless f previous [] = Inr []"
| "keep_unless f previous (token # tokens) =
     (case f token previous of
        Inl e \<Rightarrow> Inl e
      | Inr b \<Rightarrow>
          (case keep_unless f token tokens of
             Inl e \<Rightarrow> Inl e
           | Inr r \<Rightarrow> Inr (if b then r else token # r)))"

definition filter_by_flags ::
  "(string \<times> flag_check) list \<Rightarrow> string list \<Rightarrow> bool \<Rightarrow> string list result" where
  "filter_by_flags flags tokens negate =
     (case tokens of
        [] \<Rightarrow> Inr []
      | first # _ \<Rightarrow> keep_unless (filterer_flags flags negate) first tokens)"

definition filterer_filenames :: "string list \<Rightarrow> bool \<Rightarrow> string \<Rightarrow> bool result" where
  "filterer_filenames filenames negate item =
     (case match_any filenames item of
        Inl e \<Rightarrow> Inl e
      | Inr v \<Rightarrow> Inr (if negate then \<not> v else v))"

definition filter_by_filenames :: "string list \<Rightarrow> string list \<Rightarrow> bool \<Rightarrow> string list result" where
  "filter_by_filenames filenames tokens negate =
     keep_unless (\<lambda>token previous. filterer_filenames filenames negate token) [] tokens"

text \<open>
  The same two filters with \<open>match_any\<close> as a parameter. A \<open>matcher\<close> is any function from
  a list of patterns and an item to a boolean or an error, so it stands for
  \<open>util.match_any\<close> with the whole of Python's regular expressions, of which \<open>match_any\<close>
  above models a fragment. \<open>filter_by_flags\<close> and \<open>filter_by_filenames\<close> are these
  functions at \<open>match_any\<close>.
\<close>

type_synonym matcher = "string list \<Rightarrow> string \<Rightarrow> bool result"

definition filterer_flags_with ::
  "matcher \<Rightarrow> (string \<times> flag_check) list \<Rightarrow> bool \<Rightarrow> string \<Rightarrow> string \<Rightarrow> bool result" where
  "filterer_flags_with matcher flags negate token previous =
     (case matcher (map fst flags) (take 2 token) of
        Inl e \<Rightarrow> Inl e
      | Inr v1 \<Rightarrow>
          (case (if v1 then Inr True
                 else matcher (map fst (filter (\<lambda>(flag, check). flag_holds check previous) flags))
                        (take 2 previous)) of
             Inl e \<Rightarrow> Inl e
           | Inr v \<Rightarrow> Inr (if negate then \<not> v else v)))"

definition filter_by_flags_with ::
  "matcher \<Rightarrow> (string \<times> flag_check) list \<Rightarrow> string list \<Rightarrow> bool \<Rightarrow> string list result" where
  "filter_by_flags_with matcher flags tokens negate =
     (case tokens of
        [] \<Rightarrow> Inr []
      | first # _ \<Rightarrow> keep_unless (filterer_flags_with matcher flags negate) first tokens)"

definition filterer_filenames_with :: "matcher \<Rightarrow> string list \<Rightarrow> bool \<Rightarrow> string \<Rightarrow> bool result" where
  "filterer_filenames_with matcher filenames negate item =
     (case matcher filenames item of
        Inl e \<Rightarrow> Inl e
      | Inr v \<Rightarrow> Inr (if negate then \<not> v else v))"

definition filter_by_filenames_with ::
  "matcher \<Rightarrow> string list \<Rightarrow> string list \<Rightarrow> bool \<Rightarrow> string list result" where
  "filter_by_filenames_with matcher filenames tokens negate =
     keep_unless (\<lambda>token previous. filterer_filenames_with matcher filenames negate token) [] tokens"

text \<open>
  \<open>identify_line\<close>: \<open>matching\<close> is the comprehension \<open>[line for line in stage_lines if
  match(line)]\<close>, which stops at the first call of \<open>match\<close> that raises. The candidates that
  the code prints before it raises \<open>MultipleInvocationException\<close> are not modelled.
\<close>

fun matching :: "(string \<Rightarrow> bool result) \<Rightarrow> string list \<Rightarrow> string list result" where
  "matching match [] = Inr []"
| "matching match (line # lines) =
     (case match line of
        Inl e \<Rightarrow> Inl e
      | Inr b \<Rightarrow>
          (case matching match lines of
             Inl e \<Rightarrow> Inl e
           | Inr r \<Rightarrow> Inr (if b then line # r else r)))"

definition stage_get :: "(Stage \<rightharpoonup> string list) \<Rightarrow> Stage \<Rightarrow> string list" where
  "stage_get stages stage = (case stages stage of None \<Rightarrow> [] | Some ls \<Rightarrow> ls)"

definition identify_line ::
  "Stage \<Rightarrow> (Stage \<rightharpoonup> string list) \<Rightarrow> (string \<Rightarrow> bool result) \<Rightarrow> bool \<Rightarrow> string result" where
  "identify_line stage stages match single =
     (case matching match (stage_get stages stage) of
        Inl e \<Rightarrow> Inl e
      | Inr matching_lines \<Rightarrow>
          (if matching_lines = [] then Inl (MissingStageException stage)
           else if single \<and> length matching_lines > 1 then Inl MultipleInvocationException
           else Inr (matching_lines ! 0)))"

text \<open>
  Modelled from the spec: \<open>FilterProtocol.pass_all\<close>, the default of both filters of
  \<open>sort_line\<close>, is defined in the module \<open>types\<close>, which is not among the sources. The spec
  has \<open>sortLine(L, identity, identity)\<close> return \<open>(head, rest, [])\<close> and \<open>archive_tokens\<close>
  asserts that the negated default is empty: the filter that passes every token keeps all of
  them, and none under \<open>negate\<close>.
\<close>

definition pass_all :: "string list \<Rightarrow> bool \<Rightarrow> string list result" where
  "pass_all tokens negate = Inr (if negate then [] else tokens)"

type_synonym clean_filter = "string list \<Rightarrow> string list result"
type_synonym sort_filter = "string list \<Rightarrow> bool \<Rightarrow> string list result"

text \<open>
  \<open>sort_line line clean sort\<close>; the filter \<open>sort\<close> is called \<open>sorter\<close> here. \<open>clean\<close> is called
  with the tokens alone, \<open>sort\<close> once without and once with \<open>negate=True\<close>.
\<close>

definition sort_line ::
  "string \<Rightarrow> clean_filter option \<Rightarrow> sort_filter option
     \<Rightarrow> (string \<times> string list \<times> string list) result" where
  "sort_line line clean sorter =
     (let clean' = (case clean of Some c \<Rightarrow> c | None \<Rightarrow> (\<lambda>ts. pass_all ts False));
          sorter' = (case sorter of Some s \<Rightarrow> s | None \<Rightarrow> pass_all)
      in case safe_split line False of
           Inl e \<Rightarrow> Inl e
         | Inr split \<Rightarrow>
             (case clean' split of
                Inl e \<Rightarrow> Inl e
              | Inr tokens \<Rightarrow>
                  (if tokens = [] then Inl (ArduinoCLIException ''No tokens available'')
                   else case sorter' (tl tokens) False of
                          Inl e \<Rightarrow> Inl e
                        | Inr kept \<Rightarrow>
                            (case sorter' (tl tokens) True of
                               Inl e \<Rightarrow> Inl e
                             | Inr dropped \<Rightarrow> Inr (tokens ! 0, kept, dropped)))))"

fun for_each :: "('a \<Rightarrow> 'b result) \<Rightarrow> 'a list \<Rightarrow> 'b list result" where
  "for_each f [] = Inr []"
| "for_each f (x # xs) =
     (case f x of
        Inl e \<Rightarrow> Inl e
      | Inr r \<Rightarrow> (case for_each f xs of Inl e \<Rightarrow> Inl e | Inr rs \<Rightarrow> Inr (r # rs)))"

text \<open>
  \<open>build_tokens\<close>. \<open>real_names.get(source)\<close> is \<open>None\<close> for a source kind without an entry,
  which the f-string prints as \<open>None\<close>. The dictionaries \<open>source_lines\<close> and
  \<open>sorted_source_lines\<close> have one entry per member of \<open>Source\<close>, in its order; the three
  results are association lists over the same keys.
\<close>

definition source_pattern :: "(Source \<times> string) list \<Rightarrow> Source \<Rightarrow> string" where
  "source_pattern real_names source =
     (case map_of real_names source of None \<Rightarrow> ''None'' | Some n \<Rightarrow> n) @ ''[ |$]''"

definition build_cleaner :: "(Source \<times> string) list \<Rightarrow> clean_filter" where
  "build_cleaner real_names items =
     (case filter_by_flags [(''-c'', Flag False), (''-o'', Flag True)] items False of
        Inl e \<Rightarrow> Inl e
      | Inr r \<Rightarrow> filter_by_filenames (map snd real_names) r False)"

definition build_sorter :: sort_filter where
  "build_sorter = filter_by_flags [(''-I'', Callable (\<lambda>item. item = ''-I''))]"

definition include_paths_of :: "string list \<Rightarrow> string list" where
  "include_paths_of dropped =
     map (\<lambda>p. str_replace p ''-I'' []) (filter (\<lambda>p. p \<noteq> ''-I'') dropped)"

definition build_tokens ::
  "(Stage \<rightharpoonup> string list) \<Rightarrow> (Source \<times> path) list
     \<Rightarrow> ((Source \<times> string) list \<times> (Source \<times> string list) list
          \<times> (Source \<times> string list) list) result" where
  "build_tokens stages sources =
     (let real_names = real_source_names sources in
      case for_each (\<lambda>source.
             identify_line COMPILATION stages
               (match_all [source_pattern real_names source]) True) all_sources of
        Inl e \<Rightarrow> Inl e
      | Inr source_lines \<Rightarrow>
          (case for_each (\<lambda>line. sort_line line (Some (build_cleaner real_names))
                                   (Some build_sorter)) source_lines of
             Inl e \<Rightarrow> Inl e
           | Inr sorted_source_lines \<Rightarrow>
               Inr (zip all_sources (map fst sorted_source_lines),
                    zip all_sources (map (\<lambda>t. include_paths_of (snd (snd t))) sorted_source_lines),
                    zip all_sources (map (\<lambda>t. fst (snd t)) sorted_source_lines))))"

definition identify_link_line :: "(Stage \<rightharpoonup> string list) \<Rightarrow> string list \<Rightarrow> string result" where
  "identify_link_line stages source_objects =
     identify_line LINK stages (match_all source_objects) True"

text \<open>The pattern \<open>core\.a\<close>.\<close>

definition core_a_pattern :: string where
  "core_a_pattern = ''core'' @ [backslash] @ ''.a''"

definition identify_archive_line :: "(Stage \<rightharpoonup> string list) \<Rightarrow> string result" where
  "identify_archive_line stages =
     identify_line CORE stages (match_all [core_a_pattern]) False"

definition object_names :: "(Source \<times> path) list \<Rightarrow> string list" where
  "object_names sources = map (\<lambda>(source, name). name @ ''.o'') (real_source_names sources)"

text \<open>The patterns \<open>\.o$\<close>, \<open>\.a$\<close>, \<open>^-l\<close>, \<open>--start-group$\<close> and \<open>--end-group$\<close>.\<close>

definition object_patterns :: "string list" where
  "object_patterns = [[backslash] @ ''.o$'']"

definition library_patterns :: "string list" where
  "library_patterns = [[backslash] @ ''.a$'', ''^-l'', ''--start-group$'', ''--end-group$'']"

definition link_cleaner :: "string list \<Rightarrow> clean_filter" where
  "link_cleaner names items =
     (case filter_by_flags [(''-o'', Flag True)] items False of
        Inl e \<Rightarrow> Inl e
      | Inr r \<Rightarrow> filter_by_filenames names r False)"

definition link_tokens ::
  "(Stage \<rightharpoonup> string list) \<Rightarrow> (Source \<times> path) list
     \<Rightarrow> (string \<times> string list \<times> string list \<times> string list) result" where
  "link_tokens stages sources =
     (let names = object_names sources in
      case identify_link_line stages names of
        Inl e \<Rightarrow> Inl e
      | Inr link_line \<Rightarrow>
          (case sort_line link_line (Some (link_cleaner names))
                  (Some (filter_by_filenames (object_patterns @ library_patterns))) of
             Inl e \<Rightarrow> Inl e
           | Inr (linker, link_flags, linkables) \<Rightarrow>
               (case filter_by_filenames object_patterns linkables True of
                  Inl e \<Rightarrow> Inl e
                | Inr link_objects \<Rightarrow>
                    (case filter_by_filenames library_patterns linkables True of
                       Inl e \<Rightarrow> Inl e
                     | Inr link_libraries \<Rightarrow>
                         Inr (linker, link_flags, link_objects, link_libraries)))))"

definition post_link_lines ::
  "(Stage \<rightharpoonup> string list) \<Rightarrow> (Source \<times> path) list \<Rightarrow> string list result" where
  "post_link_lines stages sources =
     (case identify_link_line stages (object_names sources) of
        Inl e \<Rightarrow> Inl e
      | Inr link_line \<Rightarrow>
          (let stage_lines = stage_get stages LINK in
           case list_index stage_lines link_line of
             Inl e \<Rightarrow> Inl e
           | Inr i \<Rightarrow> Inr (drop (i + 1) stage_lines)))"

section \<open>Scenarios\<close>

text \<open>
  The probe sketch: one file per source kind, and a compilation stage with one compile line
  per file. In \<open>stages_output_first\<close> the line of the C file names the object before the
  source, so that the source's name ends the line; in \<open>stages_source_first\<close> it has the
  tool's usual order, the source before \<open>-o\<close>; in \<open>stages_dash_I_path\<close> the include
  directory of the C file has \<open>-I\<close> inside its name.
\<close>

definition probe_sources :: "(Source \<times> path) list" where
  "probe_sources =
     [(ASM, Path ''/tmp/sketch/special_input_file.S''),
      (C, Path ''/tmp/sketch/special_input_file.c''),
      (CPP, Path ''/tmp/sketch/special_input_file.cpp''),
      (INO, Path ''/tmp/sketch/sketch.ino'')]"

definition asm_line :: string where
  "asm_line =
     ''avr-gcc -c -x assembler-with-cpp -Iinclude1 special_input_file.S -o special_input_file.S.o''"

definition cpp_line :: string where
  "cpp_line = ''avr-g++ -c -Iinclude1 special_input_file.cpp -o special_input_file.cpp.o''"

definition ino_line :: string where
  "ino_line = ''avr-g++ -c -Iinclude1 sketch.ino.cpp -o sketch.ino.cpp.o''"

definition c_line_output_first :: string where
  "c_line_output_first =
     ''avr-gcc -c -o special_input_file.c.o -Iinclude1 -Iinclude2 special_input_file.c''"

definition stages_output_first :: "Stage \<rightharpoonup> string list" where
  "stages_output_first = [COMPILATION \<mapsto> [asm_line, c_line_output_first, cpp_line, ino_line]]"

definition stages_source_first :: "Stage \<rightharpoonup> string list" where
  "stages_source_first =
     [COMPILATION \<mapsto>
       [asm_line,
        ''avr-gcc -c -Iinclude1 -Iinclude2 special_input_file.c -o special_input_file.c.o'',
        cpp_line, ino_line]]"

definition stages_dash_I_path :: "Stage \<rightharpoonup> string list" where
  "stages_dash_I_path =
     [COMPILATION \<mapsto>
       [asm_line,
        ''avr-gcc -c -I/opt/Arduino-IDE/include special_input_file.c -o special_input_file.c.o'',
        cpp_line, ino_line]]"

text \<open>
  The link stage of two objects \<open>a.o\<close> and \<open>b.o\<close>, followed by one post-link line.
\<close>

definition link_line :: string where
  "link_line = ''avr-gcc -o sketch.ino.elf a.o b.o core.a -lm --start-group --end-group''"

definition objcopy_line :: string where
  "objcopy_line = ''avr-objcopy ... sketch.ino.elf sketch.hex''"

definition link_stages :: "Stage \<rightharpoonup> string list" where
  "link_stages = [LINK \<mapsto> [link_line, objcopy_line]]"

definition link_sources :: "(Source \<times> path) list" where
  "link_sources = [(C, Path ''a''), (CPP, Path ''b'')]"

section \<open>Partitions of a token list\<close>

text \<open>
  \<open>select m b t\<close> keeps the tokens of \<open>t\<close> at the positions where the mask \<open>m\<close> is \<open>b\<close>;
  \<open>interleave m ds ks\<close> merges \<open>ds\<close> (at the positions where \<open>m\<close> is true) and \<open>ks\<close> (where it
  is false). \<open>partitions t kept dropped\<close> says that two results of a filter, without and
  with \<open>negate\<close>, are the same error or the two sides of one mask over \<open>t\<close>.
\<close>

fun interleave :: "bool list \<Rightarrow> 'a list \<Rightarrow> 'a list \<Rightarrow> 'a list" where
  "interleave [] ds ks = []"
| "interleave (True # m) (d # ds) ks = d # interleave m ds ks"
| "interleave (False # m) ds (k # ks) = k # interleave m ds ks"
| "interleave (True # m) [] ks = []"
| "interleave (False # m) ds [] = []"

definition select :: "bool list \<Rightarrow> bool \<Rightarrow> 'a list \<Rightarrow> 'a list" where
  "select m b t = map fst (filter (\<lambda>(x, c). c = b) (zip t m))"

definition negated :: "bool \<Rightarrow> bool result \<Rightarrow> bool result" where
  "negated negate r = (case r of Inl e \<Rightarrow> Inl e | Inr v \<Rightarrow> Inr (if negate then \<not> v else v))"

definition partitions :: "string list \<Rightarrow> string list result \<Rightarrow> string list result \<Rightarrow> bool" where
  "partitions t kept dropped =
     ((\<exists>e. kept = Inl e \<and> dropped = Inl e)
      \<or> (\<exists>m. length m = length t \<and> kept = Inr (select m False t) \<and> dropped = Inr (select m True t)
             \<and> interleave m (select m True t) (select m False t) = t))"

text \<open>
  \<open>mask_split t kept dropped\<close>: both results are lists, the two sides of one mask over \<open>t\<close>.
\<close>

definition mask_split :: "string list \<Rightarrow> string list result \<Rightarrow> string list result \<Rightarrow> bool" where
  "mask_split t kept dropped =
     (\<exists>m. length m = length t \<and> kept = Inr (select m False t) \<and> dropped = Inr (select m True t)
          \<and> interleave m (select m True t) (select m False t) = t)"

section \<open>Properties\<close>

lemma list_index_notin: "x \<notin> set xs \<Longrightarrow> list_index xs x = Inl (NotInList x)"
  by (induction xs) auto

lemma list_index_in:
  "x \<in> set xs \<Longrightarrow> \<exists>i. list_index xs x = Inr i \<and> i < length xs \<and> xs ! i = x \<and> x \<notin> set (take i xs)"
proof (induction xs)
  case Nil
  then show ?case by simp
next
  case (Cons y ys)
  show ?case
  proof (cases "y = x")
    case True
    then show ?thesis by simp
  next
    case False
    with Cons.prems have "x \<in> set ys" by simp
    from Cons.IH [OF this] obtain i where
      "list_index ys x = Inr i" "i < length ys" "ys ! i = x" "x \<notin> set (take i ys)"
      by blast
    with False show ?thesis by simp
  qed
qed

subsection \<open>Locating a line of a stage\<close>

lemma matching_total:
  "\<forall>l \<in> set ls. match l = Inr (p l) \<Longrightarrow> matching match ls = Inr (filter p ls)"
  by (induction ls) auto

lemma find_filter_hd: "List.find p ls = Some l \<Longrightarrow> filter p ls \<noteq> [] \<and> filter p ls ! 0 = l"
  by (induction ls) (auto split: if_splits)

lemma identify_line_absent:
  "stages stage = None \<or> stages stage = Some [] \<Longrightarrow>
     identify_line stage stages match single = Inl (MissingStageException stage)"
  by (auto simp: identify_line_def stage_get_def)

text \<open>
  Claim C4. Let the match predicate answer \<open>p\<close> on every line of the stage. If no line of
  the stage satisfies it, which includes a stage that is absent or empty, \<open>identify_line\<close>
  raises \<open>MissingStageException(stage)\<close>; if \<open>single\<close> is set and two or more lines satisfy
  it, it raises \<open>MultipleInvocationException\<close>, so it returns none of them; if exactly one
  line satisfies it, that line is returned.
\<close>

theorem identify_line_contract:
  assumes "\<forall>l \<in> set (stage_get stages stage). match l = Inr (p l)"
  shows "(filter p (stage_get stages stage) = [] \<longrightarrow>
            identify_line stage stages match single = Inl (MissingStageException stage))
       \<and> (stages stage = None \<or> stages stage = Some [] \<longrightarrow>
            identify_line stage stages match single = Inl (MissingStageException stage))
       \<and> (2 \<le> length (filter p (stage_get stages stage)) \<longrightarrow>
            identify_line stage stages match True = Inl MultipleInvocationException)
       \<and> (\<forall>l. filter p (stage_get stages stage) = [l] \<longrightarrow>
            identify_line stage stages match single = Inr l)"
  using matching_total [OF assms] identify_line_absent [of stages stage match single]
  by (auto simp: identify_line_def)

theorem identify_line_contract_witness:
  "identify_line LINK [LINK \<mapsto> [''x'', ''y'', ''x'']] (\<lambda>l. Inr (l = ''z'')) True
     = Inl (MissingStageException LINK)
   \<and> identify_line CORE [LINK \<mapsto> [''x'', ''y'', ''x'']] (\<lambda>l. Inr (l = ''x'')) True
     = Inl (MissingStageException CORE)
   \<and> identify_line LINK [LINK \<mapsto> [''x'', ''y'', ''x'']] (\<lambda>l. Inr (l = ''x'')) True
     = Inl MultipleInvocationException
   \<and> identify_line LINK [LINK \<mapsto> [''x'', ''y'', ''x'']] (\<lambda>l. Inr (l = ''y'')) True
     = Inr ''y''"
  using
    identify_line_contract [of "[LINK \<mapsto> [''x'', ''y'', ''x'']]" LINK
      "\<lambda>l. Inr (l = ''z'')" "\<lambda>l. l = ''z''" True]
    identify_line_contract [of "[LINK \<mapsto> [''x'', ''y'', ''x'']]" CORE
      "\<lambda>l. Inr (l = ''x'')" "\<lambda>l. l = ''x''" True]
    identify_line_contract [of "[LINK \<mapsto> [''x'', ''y'', ''x'']]" LINK
      "\<lambda>l. Inr (l = ''x'')" "\<lambda>l. l = ''x''" True]
    identify_line_contract [of "[LINK \<mapsto> [''x'', ''y'', ''x'']]" LINK
      "\<lambda>l. Inr (l = ''y'')" "\<lambda>l. l = ''y''" True]
  by (simp add: stage_get_def)

lemma re_compile_core_a:
  "re_compile core_a_pattern
     = Inr [Lit CHR ''c'', Lit CHR ''o'', Lit CHR ''r'', Lit CHR ''e'', Lit CHR ''.'', Lit CHR ''a'']"
  by code_simp

lemma match_all_core_a:
  "match_all [core_a_pattern] l
     = Inr (re_search [Lit CHR ''c'', Lit CHR ''o'', Lit CHR ''r'', Lit CHR ''e'', Lit CHR ''.'',
                       Lit CHR ''a''] l)"
  by (simp add: match_all_def re_compile_core_a)

text \<open>
  Claim C10. Let the match predicate answer \<open>p\<close> on every line of the stage, and let \<open>l\<close> be
  the first line of the stage that satisfies it (\<open>find\<close> returns the earliest one). Then
  \<open>identify_line\<close> with \<open>single=False\<close> returns \<open>l\<close>, whatever the number of matching lines,
  and so does not raise the ambiguity error. Consequently \<open>identify_archive_line\<close> returns
  the first line of the CORE stage in which the pattern \<open>core\.a\<close> is found.
\<close>

theorem identify_line_first_match:
  assumes "\<forall>l \<in> set (stage_get stages stage). match l = Inr (p l)"
    and "List.find p (stage_get stages stage) = Some l"
  shows "identify_line stage stages match False = Inr l
       \<and> identify_line stage stages match False \<noteq> Inl MultipleInvocationException
       \<and> (\<exists>i < length (stage_get stages stage).
             stage_get stages stage ! i = l \<and> p l \<and> (\<forall>j < i. \<not> p (stage_get stages stage ! j)))
       \<and> (\<forall>a. List.find (re_search [Lit CHR ''c'', Lit CHR ''o'', Lit CHR ''r'', Lit CHR ''e'',
                                     Lit CHR ''.'', Lit CHR ''a'']) (stage_get stages CORE) = Some a
              \<longrightarrow> identify_archive_line stages = Inr a)"
proof -
  have first: "identify_line stage stages match False = Inr l"
    using matching_total [OF assms(1)] find_filter_hd [OF assms(2)]
    by (simp add: identify_line_def)
  have earliest: "\<exists>i < length (stage_get stages stage).
      stage_get stages stage ! i = l \<and> p l \<and> (\<forall>j < i. \<not> p (stage_get stages stage ! j))"
    using assms(2) by (auto simp: find_Some_iff)
  have archive: "identify_archive_line stages = Inr a"
    if "List.find (re_search [Lit CHR ''c'', Lit CHR ''o'', Lit CHR ''r'', Lit CHR ''e'',
                              Lit CHR ''.'', Lit CHR ''a'']) (stage_get stages CORE) = Some a"
    for a
    using matching_total [of "stage_get stages CORE" "match_all [core_a_pattern]"
        "re_search [Lit CHR ''c'', Lit CHR ''o'', Lit CHR ''r'', Lit CHR ''e'', Lit CHR ''.'',
                    Lit CHR ''a'']"]
      find_filter_hd [OF that]
    by (simp add: identify_archive_line_def identify_line_def match_all_core_a)
  from first earliest archive show ?thesis by simp
qed

theorem identify_line_first_match_witness:
  "identify_line CORE [CORE \<mapsto> [''ar rcs core.a x.o'', ''ranlib'', ''ar rcs core.a y.o'']]
     (match_all [core_a_pattern]) False = Inr ''ar rcs core.a x.o''
   \<and> identify_archive_line [CORE \<mapsto> [''ar rcs core.a x.o'', ''ranlib'', ''ar rcs core.a y.o'']]
     = Inr ''ar rcs core.a x.o''"
proof -
  let ?re = "re_search [Lit CHR ''c'', Lit CHR ''o'', Lit CHR ''r'', Lit CHR ''e'', Lit CHR ''.'',
                        Lit CHR ''a'']"
  let ?stages = "[CORE \<mapsto> [''ar rcs core.a x.o'', ''ranlib'', ''ar rcs core.a y.o'']]"
  have lines: "stage_get ?stages CORE = [''ar rcs core.a x.o'', ''ranlib'', ''ar rcs core.a y.o'']"
    by (simp add: stage_get_def)
  have h1: "\<forall>l \<in> set (stage_get ?stages CORE). match_all [core_a_pattern] l = Inr (?re l)"
    by (simp add: match_all_core_a)
  have h2: "List.find ?re (stage_get ?stages CORE) = Some ''ar rcs core.a x.o''"
    unfolding lines by code_simp
  from identify_line_first_match [OF h1 h2] h2 show ?thesis by blast
qed

subsection \<open>Segmenting the log\<close>

lemma lines_between_open_end:
  "list_index output_lines start_phrase = Inr i \<Longrightarrow>
     lines_between output_lines start_phrase None = Inr (butlast (drop (Suc i) output_lines))"
  by (simp add: lines_between_def slice_to_minus1_def butlast_conv_take drop_take)

text \<open>
  Claim C7. With no end phrase, \<open>lines_between\<close> slices up to index \<open>-1\<close>: it returns the
  lines after the start phrase without the last line of the log. On a log of the marker,
  the link command and one post-link command, the post-link command is lost.
\<close>

theorem lines_between_drops_last_line:
  "lines_between
     [''Linking everything together...'', ''avr-gcc -o sketch.ino.elf core.a'',
      ''avr-objcopy sketch.ino.elf sketch.hex'']
     ''Linking everything together...'' None
   = Inr [''avr-gcc -o sketch.ino.elf core.a'']"
  by code_simp

text \<open>
  Claim C5. When the line \<open>Linking everything together...\<close> does not occur in the log,
  \<open>parse_linker_commands\<close> fails in \<open>lines_between\<close> with the \<open>ValueError\<close> of \<open>list.index\<close>,
  which nothing on this path catches or converts.
\<close>

theorem parse_linker_commands_missing_marker:
  "''Linking everything together...'' \<notin> set output_lines \<Longrightarrow>
     parse_linker_commands output_lines = Inl (NotInList ''Linking everything together...'')"
  by (simp add: parse_linker_commands_def lines_between_def list_index_notin)

theorem parse_linker_commands_missing_marker_witness:
  "''Linking everything together...'' \<notin> set [''Compiling sketch...'', ''avr-gcc -o sketch.ino.elf core.a'']
   \<and> parse_linker_commands [''Compiling sketch...'', ''avr-gcc -o sketch.ino.elf core.a'']
       = Inl (NotInList ''Linking everything together...'')"
  using parse_linker_commands_missing_marker
    [of "[''Compiling sketch...'', ''avr-gcc -o sketch.ino.elf core.a'']"]
  by simp

theorem parse_linker_commands_not_missing_stage:
  "parse_linker_commands [''Compiling sketch...'', ''avr-gcc -o sketch.ino.elf core.a'']
     = Inl (NotInList ''Linking everything together...'')
   \<and> parse_linker_commands [''Compiling sketch...'', ''avr-gcc -o sketch.ino.elf core.a'']
     \<noteq> Inl (MissingStageException LINK)"
  by code_simp

subsection \<open>The two filters\<close>

lemma select_Cons [simp]:
  "select (b # m) c (x # t) = (if b = c then x # select m c t else select m c t)"
  by (simp add: select_def)

lemma keep_unless_partition:
  "partitions ts (keep_unless (\<lambda>t p. negated False (g t p)) prev ts)
                 (keep_unless (\<lambda>t p. negated True (g t p)) prev ts)"
proof (induction ts arbitrary: prev)
  case Nil
  show ?case by (simp add: partitions_def select_def)
next
  case (Cons t ts)
  show ?case
  proof (cases "g t prev")
    case (Inl e)
    then show ?thesis by (simp add: partitions_def negated_def)
  next
    case (Inr v)
    from Cons.IH [of t] show ?thesis
      unfolding partitions_def
    proof (elim disjE exE conjE)
      fix e
      assume "keep_unless (\<lambda>t p. negated False (g t p)) t ts = Inl e"
        "keep_unless (\<lambda>t p. negated True (g t p)) t ts = Inl e"
      with Inr show "(\<exists>e. keep_unless (\<lambda>t p. negated False (g t p)) prev (t # ts) = Inl e \<and>
           keep_unless (\<lambda>t p. negated True (g t p)) prev (t # ts) = Inl e) \<or>
       (\<exists>m. length m = length (t # ts) \<and>
           keep_unless (\<lambda>t p. negated False (g t p)) prev (t # ts) = Inr (select m False (t # ts)) \<and>
           keep_unless (\<lambda>t p. negated True (g t p)) prev (t # ts) = Inr (select m True (t # ts)) \<and>
           interleave m (select m True (t # ts)) (select m False (t # ts)) = t # ts)"
        by (simp add: negated_def)
    next
      fix m
      assume m: "length m = length ts"
        "keep_unless (\<lambda>t p. negated False (g t p)) t ts = Inr (select m False ts)"
        "keep_unless (\<lambda>t p. negated True (g t p)) t ts = Inr (select m True ts)"
        "interleave m (select m True ts) (select m False ts) = ts"
      have "length (v # m) = length (t # ts) \<and>
           keep_unless (\<lambda>t p. negated False (g t p)) prev (t # ts) = Inr (select (v # m) False (t # ts)) \<and>
           keep_unless (\<lambda>t p. negated True (g t p)) prev (t # ts) = Inr (select (v # m) True (t # ts)) \<and>
           interleave (v # m) (select (v # m) True (t # ts)) (select (v # m) False (t # ts)) = t # ts"
        using m Inr by (cases v) (simp_all add: negated_def)
      then show "(\<exists>e. keep_unless (\<lambda>t p. negated False (g t p)) prev (t # ts) = Inl e \<and>
           keep_unless (\<lambda>t p. negated True (g t p)) prev (t # ts) = Inl e) \<or>
       (\<exists>m. length m = length (t # ts) \<and>
           keep_unless (\<lambda>t p. negated False (g t p)) prev (t # ts) = Inr (select m False (t # ts)) \<and>
           keep_unless (\<lambda>t p. negated True (g t p)) prev (t # ts) = Inr (select m True (t # ts)) \<and>
           interleave m (select m True (t # ts)) (select m False (t # ts)) = t # ts)"
        by blast
    qed
  qed
qed

lemma negated_False [simp]: "negated False r = r"
  by (simp add: negated_def split: sum.splits)

lemma filterer_flags_negated:
  "filterer_flags flags True = (\<lambda>t p. negated True (filterer_flags flags False t p))"
  by (auto simp: filterer_flags_def negated_def fun_eq_iff split: sum.splits)

lemma filterer_filenames_negated:
  "filterer_filenames filenames True = (\<lambda>t. negated True (filterer_filenames filenames False t))"
  by (auto simp: filterer_filenames_def negated_def fun_eq_iff split: sum.splits)

lemma filters_partition_core:
  "partitions t (filter_by_flags f t False) (filter_by_flags f t True)
   \<and> partitions t (filter_by_filenames ps t False) (filter_by_filenames ps t True)"
proof
  show "partitions t (filter_by_flags f t False) (filter_by_flags f t True)"
  proof (cases t)
    case Nil
    then show ?thesis by (simp add: filter_by_flags_def partitions_def select_def)
  next
    case (Cons a ts)
    have "partitions (a # ts) (keep_unless (filterer_flags f False) a (a # ts))
            (keep_unless (\<lambda>t p. negated True (filterer_flags f False t p)) a (a # ts))"
      using keep_unless_partition [of "a # ts" "filterer_flags f False" a] by simp
    then show ?thesis
      unfolding Cons filter_by_flags_def filterer_flags_negated by simp
  qed
  have "partitions t (keep_unless (\<lambda>t p. filterer_filenames ps False t) [] t)
          (keep_unless (\<lambda>t p. negated True (filterer_filenames ps False t)) [] t)"
    using keep_unless_partition [of t "\<lambda>t p. filterer_filenames ps False t" "[]"] by simp
  then show "partitions t (filter_by_filenames ps t False) (filter_by_filenames ps t True)"
    unfolding filter_by_filenames_def filterer_filenames_negated by simp
qed


lemma compile_all_sublist:
  "compile_all (map fst flags) = Inr ms \<Longrightarrow> \<exists>ms'. compile_all (map fst (filter Q flags)) = Inr ms'"
proof (induction flags arbitrary: ms)
  case Nil
  then show ?case by simp
next
  case (Cons a flags)
  from Cons.prems obtain m ms0 where
    m: "re_compile (fst a) = Inr m" and ms0: "compile_all (map fst flags) = Inr ms0"
    by (auto split: sum.splits)
  from Cons.IH [OF ms0] obtain ms' where "compile_all (map fst (filter Q flags)) = Inr ms'" ..
  with m show ?case by simp
qed

lemma filterer_flags_returns:
  assumes "compile_all (map fst flags) = Inr ms"
  shows "\<exists>b. filterer_flags flags negate token previous = Inr b"
proof -
  from compile_all_sublist [OF assms, of "\<lambda>(flag, check). flag_holds check previous"]
  obtain ms' where
    "compile_all (map fst (filter (\<lambda>(flag, check). flag_holds check previous) flags)) = Inr ms'" ..
  with assms show ?thesis
    by (simp add: filterer_flags_def match_any_def)
qed

lemma keep_unless_returns:
  "(\<And>t p. \<exists>b. f t p = Inr b) \<Longrightarrow> \<exists>r. keep_unless f prev ts = Inr r"
proof (induction ts arbitrary: prev)
  case Nil
  show ?case by simp
next
  case (Cons t ts)
  from Cons.prems obtain b where b: "f t prev = Inr b" by blast
  from Cons.IH [OF Cons.prems] obtain r where "keep_unless f t ts = Inr r" by blast
  with b show ?case by simp
qed

lemma filter_by_flags_returns:
  assumes "compile_all (map fst flags) = Inr ms"
  shows "\<exists>r. filter_by_flags flags tokens negate = Inr r"
proof (cases tokens)
  case Nil
  then show ?thesis by (simp add: filter_by_flags_def)
next
  case (Cons a ts)
  from keep_unless_returns [of "filterer_flags flags negate" a "a # ts"]
    filterer_flags_returns [OF assms]
  show ?thesis unfolding Cons filter_by_flags_def by simp
qed

lemma filter_by_filenames_returns:
  assumes "compile_all filenames = Inr ms"
  shows "\<exists>r. filter_by_filenames filenames tokens negate = Inr r"
  using keep_unless_returns [of "\<lambda>token previous. filterer_filenames filenames negate token" "[]" tokens]
    assms
  unfolding filter_by_filenames_def by (simp add: filterer_filenames_def match_any_def)

lemma filterer_flags_is_with: "filterer_flags = filterer_flags_with match_any"
  by (simp add: fun_eq_iff filterer_flags_def filterer_flags_with_def)

lemma filterer_filenames_is_with: "filterer_filenames = filterer_filenames_with match_any"
  by (simp add: fun_eq_iff filterer_filenames_def filterer_filenames_with_def)

lemma filter_by_flags_is_with: "filter_by_flags = filter_by_flags_with match_any"
  by (intro ext)
    (simp add: filter_by_flags_def filter_by_flags_with_def filterer_flags_is_with
      split: list.splits)

lemma filter_by_filenames_is_with: "filter_by_filenames = filter_by_filenames_with match_any"
  by (simp add: fun_eq_iff filter_by_filenames_def filter_by_filenames_with_def
      filterer_filenames_is_with)

lemma filterer_flags_with_negated:
  "filterer_flags_with matcher flags True
     = (\<lambda>t p. negated True (filterer_flags_with matcher flags False t p))"
  by (auto simp: filterer_flags_with_def negated_def fun_eq_iff split: sum.splits)

lemma filterer_filenames_with_negated:
  "filterer_filenames_with matcher filenames True
     = (\<lambda>t. negated True (filterer_filenames_with matcher filenames False t))"
  by (auto simp: filterer_filenames_with_def negated_def fun_eq_iff split: sum.splits)

lemma filters_with_partition:
  "partitions t (filter_by_flags_with matcher f t False) (filter_by_flags_with matcher f t True)
   \<and> partitions t (filter_by_filenames_with matcher ps t False)
        (filter_by_filenames_with matcher ps t True)"
proof
  show "partitions t (filter_by_flags_with matcher f t False) (filter_by_flags_with matcher f t True)"
  proof (cases t)
    case Nil
    then show ?thesis by (simp add: filter_by_flags_with_def partitions_def select_def)
  next
    case (Cons a ts)
    have "partitions (a # ts) (keep_unless (filterer_flags_with matcher f False) a (a # ts))
            (keep_unless (\<lambda>t p. negated True (filterer_flags_with matcher f False t p)) a (a # ts))"
      using keep_unless_partition [of "a # ts" "filterer_flags_with matcher f False" a] by simp
    then show ?thesis
      unfolding Cons filter_by_flags_with_def filterer_flags_with_negated by simp
  qed
  have "partitions t (keep_unless (\<lambda>t p. filterer_filenames_with matcher ps False t) [] t)
          (keep_unless (\<lambda>t p. negated True (filterer_filenames_with matcher ps False t)) [] t)"
    using keep_unless_partition [of t "\<lambda>t p. filterer_filenames_with matcher ps False t" "[]"]
    by simp
  then show "partitions t (filter_by_filenames_with matcher ps t False)
               (filter_by_filenames_with matcher ps t True)"
    unfolding filter_by_filenames_with_def filterer_filenames_with_negated by simp
qed

lemma filter_by_flags_with_returns:
  assumes "\<forall>patterns item. set patterns \<subseteq> fst ` set f \<longrightarrow> (\<exists>b. matcher patterns item = Inr b)"
  shows "\<exists>r. filter_by_flags_with matcher f t negate = Inr r"
proof (cases t)
  case Nil
  then show ?thesis by (simp add: filter_by_flags_with_def)
next
  case (Cons a ts)
  have step: "\<exists>b. filterer_flags_with matcher f negate token previous = Inr b" for token previous
  proof -
    from assms obtain v1 where v1: "matcher (map fst f) (take 2 token) = Inr v1"
      by (metis set_map subset_refl)
    have "set (map fst (filter (\<lambda>(flag, check). flag_holds check previous) f)) \<subseteq> fst ` set f"
      by auto
    with assms obtain v2 where
      "matcher (map fst (filter (\<lambda>(flag, check). flag_holds check previous) f)) (take 2 previous)
         = Inr v2"
      by blast
    with v1 show ?thesis by (simp add: filterer_flags_with_def)
  qed
  from keep_unless_returns [of "filterer_flags_with matcher f negate" a "a # ts"] step
  show ?thesis unfolding Cons filter_by_flags_with_def by simp
qed

lemma filter_by_filenames_with_returns:
  assumes "\<forall>item. \<exists>b. matcher ps item = Inr b"
  shows "\<exists>r. filter_by_filenames_with matcher ps t negate = Inr r"
proof -
  have step: "\<exists>b. filterer_filenames_with matcher ps negate token = Inr b" for token
  proof -
    from assms obtain v where "matcher ps token = Inr v" by blast
    then show ?thesis by (simp add: filterer_filenames_with_def)
  qed
  from keep_unless_returns
    [of "\<lambda>token previous. filterer_filenames_with matcher ps negate token" "[]" t] step
  show ?thesis unfolding filter_by_filenames_with_def by simp
qed

lemma partitions_returns_split:
  "partitions t kept dropped \<Longrightarrow> kept = Inr r \<Longrightarrow> mask_split t kept dropped"
  by (auto simp: partitions_def mask_split_def)

text \<open>
  Claim C3. For every token list \<open>t\<close>, every flag table \<open>f\<close>, every pattern set \<open>ps\<close> and
  every matcher (whatever regular expressions it implements), the call with \<open>negate=False\<close>
  and the call with \<open>negate=True\<close> either raise the same error, which is an error of the
  matcher, or split \<open>t\<close> along one mask: one call returns the tokens at the positions where
  the mask is false, the other those where it is true, each in the order of \<open>t\<close>, and
  interleaving the two results at their positions gives \<open>t\<close> back. When the matcher answers
  for the patterns of the table (for the pattern set), both calls return and split \<open>t\<close> so.
  \<open>filter_by_flags\<close> and \<open>filter_by_filenames\<close> are the instances at \<open>match_any\<close>, where the
  matcher answers as soon as the patterns compile. The functions build new lists; \<open>t\<close> is
  a value and is not changed.
\<close>

theorem filters_partition:
  "partitions t (filter_by_flags_with matcher f t False) (filter_by_flags_with matcher f t True)
   \<and> partitions t (filter_by_filenames_with matcher ps t False)
        (filter_by_filenames_with matcher ps t True)
   \<and> ((\<forall>patterns item. set patterns \<subseteq> fst ` set f \<longrightarrow> (\<exists>b. matcher patterns item = Inr b)) \<longrightarrow>
        mask_split t (filter_by_flags_with matcher f t False) (filter_by_flags_with matcher f t True))
   \<and> ((\<forall>item. \<exists>b. matcher ps item = Inr b) \<longrightarrow>
        mask_split t (filter_by_filenames_with matcher ps t False)
          (filter_by_filenames_with matcher ps t True))
   \<and> filter_by_flags = filter_by_flags_with match_any
   \<and> filter_by_filenames = filter_by_filenames_with match_any
   \<and> partitions t (filter_by_flags f t False) (filter_by_flags f t True)
   \<and> partitions t (filter_by_filenames ps t False) (filter_by_filenames ps t True)
   \<and> (\<forall>ms. compile_all (map fst f) = Inr ms \<longrightarrow>
        (\<exists>kept dropped. filter_by_flags f t False = Inr kept \<and> filter_by_flags f t True = Inr dropped))
   \<and> (\<forall>ms. compile_all ps = Inr ms \<longrightarrow>
        (\<exists>kept dropped. filter_by_filenames ps t False = Inr kept
                       \<and> filter_by_filenames ps t True = Inr dropped))"
proof -
  note p = filters_with_partition [of t matcher f ps]
  from p have c1:
    "partitions t (filter_by_flags_with matcher f t False) (filter_by_flags_with matcher f t True)"
    by simp
  from p have c2:
    "partitions t (filter_by_filenames_with matcher ps t False)
       (filter_by_filenames_with matcher ps t True)"
    by simp
  have c3: "(\<forall>patterns item. set patterns \<subseteq> fst ` set f \<longrightarrow> (\<exists>b. matcher patterns item = Inr b)) \<longrightarrow>
        mask_split t (filter_by_flags_with matcher f t False) (filter_by_flags_with matcher f t True)"
  proof
    assume h: "\<forall>patterns item. set patterns \<subseteq> fst ` set f \<longrightarrow> (\<exists>b. matcher patterns item = Inr b)"
    from filter_by_flags_with_returns [where f = f and matcher = matcher and t = t and negate = False] h
    obtain r where "filter_by_flags_with matcher f t False = Inr r" by blast
    from partitions_returns_split [OF c1 this]
    show "mask_split t (filter_by_flags_with matcher f t False) (filter_by_flags_with matcher f t True)" .
  qed
  have c4: "(\<forall>item. \<exists>b. matcher ps item = Inr b) \<longrightarrow>
        mask_split t (filter_by_filenames_with matcher ps t False)
          (filter_by_filenames_with matcher ps t True)"
  proof
    assume h: "\<forall>item. \<exists>b. matcher ps item = Inr b"
    from filter_by_filenames_with_returns
           [where ps = ps and matcher = matcher and t = t and negate = False] h
    obtain r where "filter_by_filenames_with matcher ps t False = Inr r" by blast
    from partitions_returns_split [OF c2 this]
    show "mask_split t (filter_by_filenames_with matcher ps t False)
            (filter_by_filenames_with matcher ps t True)" .
  qed
  note c5 = filter_by_flags_is_with
  note c6 = filter_by_filenames_is_with
  from filters_partition_core [of t f ps] have c7:
    "partitions t (filter_by_flags f t False) (filter_by_flags f t True)"
    by simp
  from filters_partition_core [of t f ps] have c8:
    "partitions t (filter_by_filenames ps t False) (filter_by_filenames ps t True)"
    by simp
  have c9: "\<forall>ms. compile_all (map fst f) = Inr ms \<longrightarrow>
        (\<exists>kept dropped. filter_by_flags f t False = Inr kept \<and> filter_by_flags f t True = Inr dropped)"
    using filter_by_flags_returns [of f _ t] by blast
  have c10: "\<forall>ms. compile_all ps = Inr ms \<longrightarrow>
        (\<exists>kept dropped. filter_by_filenames ps t False = Inr kept
                       \<and> filter_by_filenames ps t True = Inr dropped)"
    using filter_by_filenames_returns [of ps _ t] by blast
  from c1 c2 c3 c4 c5 c6 c7 c8 c9 c10 show ?thesis
    by - (intro conjI; assumption)
qed

lemma compile_all_dash_o:
  "set patterns \<subseteq> {''-o''} \<Longrightarrow> \<exists>ms. compile_all patterns = Inr ms"
proof (induction patterns)
  case Nil
  show ?case by simp
next
  case (Cons p patterns)
  then have p: "p = ''-o''" and "set patterns \<subseteq> {''-o''}" by auto
  from Cons.IH [OF this(2)] obtain ms where ms: "compile_all patterns = Inr ms" ..
  have "re_compile ''-o'' = Inr [Lit CHR ''-'', Lit CHR ''o'']" by code_simp
  with p ms show ?case by simp
qed

theorem filters_partition_witness:
  "mask_split [''gcc'', ''-o'', ''x'', ''y'']
     (filter_by_flags_with match_any [(''-o'', Flag True)] [''gcc'', ''-o'', ''x'', ''y''] False)
     (filter_by_flags_with match_any [(''-o'', Flag True)] [''gcc'', ''-o'', ''x'', ''y''] True)
   \<and> filter_by_flags [(''-o'', Flag True)] [''gcc'', ''-o'', ''x'', ''y''] False = Inr [''gcc'', ''y'']
   \<and> filter_by_flags [(''-o'', Flag True)] [''gcc'', ''-o'', ''x'', ''y''] True = Inr [''-o'', ''x'']
   \<and> mask_split [''gcc'', ''-o'', ''x'', ''y'']
     (filter_by_filenames_with (\<lambda>patterns item. Inr (item \<in> set patterns)) [''x'']
        [''gcc'', ''-o'', ''x'', ''y''] False)
     (filter_by_filenames_with (\<lambda>patterns item. Inr (item \<in> set patterns)) [''x'']
        [''gcc'', ''-o'', ''x'', ''y''] True)
   \<and> filter_by_filenames [''x''] [''gcc'', ''-o'', ''x'', ''y''] False = Inr [''gcc'', ''-o'', ''y'']
   \<and> filter_by_filenames [''x''] [''gcc'', ''-o'', ''x'', ''y''] True = Inr [''x'']"
proof -
  have h1: "\<forall>patterns item. set patterns \<subseteq> fst ` set [(''-o'', Flag True)] \<longrightarrow>
              (\<exists>b. match_any patterns item = Inr b)"
  proof (intro allI impI)
    fix patterns item
    assume "set patterns \<subseteq> fst ` set [(''-o'', Flag True)]"
    then have "set patterns \<subseteq> {''-o''}" by simp
    from compile_all_dash_o [OF this] show "\<exists>b. match_any patterns item = Inr b"
      by (auto simp: match_any_def)
  qed
  have h2: "\<forall>item. \<exists>b. (\<lambda>patterns item. Inr (item \<in> set patterns) :: bool result) [''x''] item = Inr b"
    by simp
  have e1: "filter_by_flags [(''-o'', Flag True)] [''gcc'', ''-o'', ''x'', ''y''] False
              = Inr [''gcc'', ''y'']"
    by code_simp
  have e2: "filter_by_flags [(''-o'', Flag True)] [''gcc'', ''-o'', ''x'', ''y''] True
              = Inr [''-o'', ''x'']"
    by code_simp
  have e3: "filter_by_filenames [''x''] [''gcc'', ''-o'', ''x'', ''y''] False
              = Inr [''gcc'', ''-o'', ''y'']"
    by code_simp
  have e4: "filter_by_filenames [''x''] [''gcc'', ''-o'', ''x'', ''y''] True = Inr [''x'']"
    by code_simp
  from filters_partition
         [of "[''gcc'', ''-o'', ''x'', ''y'']" match_any "[(''-o'', Flag True)]" "[''x'']"] h1
  have w1: "mask_split [''gcc'', ''-o'', ''x'', ''y'']
     (filter_by_flags_with match_any [(''-o'', Flag True)] [''gcc'', ''-o'', ''x'', ''y''] False)
     (filter_by_flags_with match_any [(''-o'', Flag True)] [''gcc'', ''-o'', ''x'', ''y''] True)"
    by blast
  from filters_partition
         [of "[''gcc'', ''-o'', ''x'', ''y'']" "\<lambda>patterns item. Inr (item \<in> set patterns)"
            "[(''-o'', Flag True)]" "[''x'']"] h2
  have w2: "mask_split [''gcc'', ''-o'', ''x'', ''y'']
     (filter_by_filenames_with (\<lambda>patterns item. Inr (item \<in> set patterns)) [''x'']
        [''gcc'', ''-o'', ''x'', ''y''] False)
     (filter_by_filenames_with (\<lambda>patterns item. Inr (item \<in> set patterns)) [''x'']
        [''gcc'', ''-o'', ''x'', ''y''] True)"
    by blast
  from w1 e1 e2 w2 e3 e4 show ?thesis by blast
qed

subsection \<open>Sorting a line\<close>

text \<open>
  Claim C6, as stated: with two filters that return their input unchanged, also under
  \<open>negate=True\<close>, the third component of \<open>sort_line\<close> is the rest of the tokens, not the
  empty list.
\<close>

theorem sort_line_identity_third:
  "sort_line ''avr-gcc -Os'' (Some (\<lambda>tokens. Inr tokens)) (Some (\<lambda>tokens negate. Inr tokens))
     = Inr (''avr-gcc'', [''-Os''], [''-Os''])"
  by code_simp

text \<open>
  Claim C6, amended. For every line \<open>L\<close> that tokenizes into \<open>head\<close> followed by \<open>rest\<close>,
  \<open>sort_line\<close> with the pass-all filters (the defaults, which keep every token and keep
  none under \<open>negate=True\<close>) returns \<open>(head, rest, [])\<close>. If the cleaned token sequence is
  empty, \<open>sort_line\<close> raises \<open>ArduinoCLIException('No tokens available')\<close>.
\<close>

theorem sort_line_pass_all:
  "(\<forall>head rest. safe_split L False = Inr (head # rest) \<longrightarrow>
      sort_line L None None = Inr (head, rest, [])
      \<and> sort_line L (Some (\<lambda>tokens. pass_all tokens False)) (Some pass_all) = Inr (head, rest, []))
   \<and> (\<forall>split. safe_split L False = Inr split \<and> clean split = Inr [] \<longrightarrow>
        sort_line L (Some clean) sorter = Inl (ArduinoCLIException ''No tokens available''))
   \<and> (safe_split L False = Inr [] \<longrightarrow>
        sort_line L None sorter = Inl (ArduinoCLIException ''No tokens available''))"
  by (auto simp: sort_line_def pass_all_def)

theorem sort_line_pass_all_witness:
  "safe_split ''avr-gcc -Os -g'' False = Inr [''avr-gcc'', ''-Os'', ''-g'']
   \<and> sort_line ''avr-gcc -Os -g'' None None = Inr (''avr-gcc'', [''-Os'', ''-g''], [])
   \<and> sort_line ''-c'' (Some (\<lambda>ts. filter_by_flags [(''-c'', Flag False)] ts False)) None
       = Inl (ArduinoCLIException ''No tokens available'')
   \<and> sort_line '' '' None None = Inl (ArduinoCLIException ''No tokens available'')"
proof -
  have s1: "safe_split ''avr-gcc -Os -g'' False = Inr [''avr-gcc'', ''-Os'', ''-g'']"
    by code_simp
  have s2: "safe_split ''-c'' False = Inr [''-c'']
            \<and> filter_by_flags [(''-c'', Flag False)] [''-c''] False = Inr []"
    by code_simp
  have s3: "safe_split '' '' False = Inr []"
    by code_simp
  from sort_line_pass_all [of "''avr-gcc -Os -g''"] s1
    sort_line_pass_all [of "''-c''" "\<lambda>ts. filter_by_flags [(''-c'', Flag False)] ts False" None] s2
    sort_line_pass_all [of "'' ''" _ None] s3
  show ?thesis by simp
qed

subsection \<open>The compile recipe of the module parse\<close>

lemma for_items_Inr:
  "for_items f kvs = Inr res \<Longrightarrow> (k, v) \<in> set kvs \<Longrightarrow> \<exists>r. f v = Inr r \<and> (k, r) \<in> set res"
proof (induction kvs arbitrary: res)
  case Nil
  then show ?case by simp
next
  case (Cons kv kvs)
  obtain k' v' where kv: "kv = (k', v')" by (cases kv)
  from Cons.prems(1) kv obtain r' rs where
    r': "f v' = Inr r'" and rs: "for_items f kvs = Inr rs" and res: "res = (k', r') # rs"
    by (auto split: sum.splits)
  show ?case
  proof (cases "(k, v) = (k', v')")
    case True
    with r' res show ?thesis by auto
  next
    case False
    with Cons.prems(2) kv have "(k, v) \<in> set kvs" by auto
    from Cons.IH [OF rs this] res show ?thesis by auto
  qed
qed

lemma filter_Cons_find: "filter P ls = x # xs \<Longrightarrow> List.find P ls = Some x"
  by (induction ls) (auto split: if_splits)

lemma find_filter_Cons: "List.find P ls = Some x \<Longrightarrow> \<exists>xs. filter P ls = x # xs"
  by (induction ls) (auto split: if_splits)

lemma compilation_command_Inr:
  assumes "compilation_command lines p = Inr r"
  shows "\<exists>line toks. List.find (contains_str (path_name p @ ''.o'')) lines = Some line
           \<and> shlex_split line = Inr toks
           \<and> r = filter (filter_function_compile (path_name p)) toks
           \<and> r = expected_command_values toks"
proof -
  from assms obtain line rest where
    sel: "filter (contains_str (path_name p @ ''.o'')) lines = line # rest"
    by (auto simp: compilation_command_def Let_def split: list.splits)
  with assms obtain toks where toks: "shlex_split line = Inr toks"
    by (auto simp: compilation_command_def Let_def split: sum.splits)
  from assms sel toks have
    "r = filter (filter_function_compile (path_name p)) toks \<and> r = expected_command_values toks"
    by (auto simp: compilation_command_def Let_def split: if_splits)
  with filter_Cons_find [OF sel] toks show ?thesis by blast
qed

lemma compilation_command_assert:
  assumes "List.find (contains_str (path_name p @ ''.o'')) lines = Some line"
    and "shlex_split line = Inr toks"
    and "filter (filter_function_compile (path_name p)) toks \<noteq> expected_command_values toks"
  shows "compilation_command lines p
           = Inl (AssertionError ''Necessary arguments are usually all but the last 3'')"
proof -
  from find_filter_Cons [OF assms(1)] obtain rest where
    "filter (contains_str (path_name p @ ''.o'')) lines = line # rest" ..
  with assms(2,3) show ?thesis by (simp add: compilation_command_def Let_def)
qed

text \<open>
  Claim C8, amended. \<open>parse_compilation_commands\<close> returns only when, for every entry of
  the mapping, the tokens that survive its filter (without \<open>-c\<close>, \<open>-o\<close> and the tokens that
  end in the file's name or in its object's name) are the first token of the shell-split
  line followed by its tokens from the third up to the fourth from the end, that is
  \<open>shell_split[:1] + shell_split[2:-3]\<close>: all but the second and the last three. When the
  two derivations disagree on the line of an entry, the step for that entry fails with an
  \<open>AssertionError\<close> and returns neither.
\<close>

theorem parse_compilation_commands_consistency:
  "(parse_compilation_commands output_lines mapping = Inr res \<and> (ft, p) \<in> set mapping \<longrightarrow>
      (\<exists>lines line toks.
         lines_between output_lines ''Compiling sketch...'' (Some ''Compiling libraries...'') = Inr lines
         \<and> List.find (contains_str (path_name p @ ''.o'')) lines = Some line
         \<and> shlex_split line = Inr toks
         \<and> filter (filter_function_compile (path_name p)) toks
             = take 1 toks @ drop 2 (take (length toks - 3) toks)
         \<and> (ft, filter (filter_function_compile (path_name p)) toks) \<in> set res))
   \<and> (List.find (contains_str (path_name p @ ''.o'')) compilation_lines = Some l
        \<and> shlex_split l = Inr ts
        \<and> filter (filter_function_compile (path_name p)) ts
             \<noteq> take 1 ts @ drop 2 (take (length ts - 3) ts) \<longrightarrow>
      compilation_command compilation_lines p
        = Inl (AssertionError ''Necessary arguments are usually all but the last 3''))"
proof (intro conjI impI)
  assume a: "parse_compilation_commands output_lines mapping = Inr res \<and> (ft, p) \<in> set mapping"
  then obtain lines where
    lines: "lines_between output_lines ''Compiling sketch...'' (Some ''Compiling libraries...'') = Inr lines"
    and items: "for_items (compilation_command lines) mapping = Inr res"
    by (auto simp: parse_compilation_commands_def split: sum.splits)
  from for_items_Inr [OF items] a obtain r where
    r: "compilation_command lines p = Inr r" and mem: "(ft, r) \<in> set res" by blast
  from compilation_command_Inr [OF r] lines mem
  show "\<exists>lines line toks.
         lines_between output_lines ''Compiling sketch...'' (Some ''Compiling libraries...'') = Inr lines
         \<and> List.find (contains_str (path_name p @ ''.o'')) lines = Some line
         \<and> shlex_split line = Inr toks
         \<and> filter (filter_function_compile (path_name p)) toks
             = take 1 toks @ drop 2 (take (length toks - 3) toks)
         \<and> (ft, filter (filter_function_compile (path_name p)) toks) \<in> set res"
    unfolding expected_command_values_def by metis
next
  assume "List.find (contains_str (path_name p @ ''.o'')) compilation_lines = Some l
        \<and> shlex_split l = Inr ts
        \<and> filter (filter_function_compile (path_name p)) ts
             \<noteq> take 1 ts @ drop 2 (take (length ts - 3) ts)"
  then show "compilation_command compilation_lines p
        = Inl (AssertionError ''Necessary arguments are usually all but the last 3'')"
    using compilation_command_assert [of p compilation_lines l ts]
    by (simp add: expected_command_values_def)
qed

text \<open>
  Claim C8, as stated: on a compile line of the tool's usual shape the function returns,
  and the surviving tokens are not all but the last three tokens of the line, which still
  hold the \<open>-c\<close> at the second position.
\<close>

theorem parse_compilation_commands_not_all_but_three:
  "parse_compilation_commands
     [''Compiling sketch...'',
      ''avr-gcc -c -g -Os /tmp/s/special_input_file.c -o /tmp/s/special_input_file.c.o'',
      ''Compiling libraries...'']
     [(''c'', Path ''/tmp/s/special_input_file.c'')]
     = Inr [(''c'', [''avr-gcc'', ''-g'', ''-Os''])]
   \<and> shlex_split ''avr-gcc -c -g -Os /tmp/s/special_input_file.c -o /tmp/s/special_input_file.c.o''
     = Inr [''avr-gcc'', ''-c'', ''-g'', ''-Os'', ''/tmp/s/special_input_file.c'', ''-o'',
            ''/tmp/s/special_input_file.c.o'']
   \<and> [''avr-gcc'', ''-g'', ''-Os'']
     \<noteq> butlast (butlast (butlast [''avr-gcc'', ''-c'', ''-g'', ''-Os'',
            ''/tmp/s/special_input_file.c'', ''-o'', ''/tmp/s/special_input_file.c.o'']))"
  by code_simp


theorem parse_compilation_commands_consistency_witness:
  "parse_compilation_commands
     [''Compiling sketch...'',
      ''avr-gcc -c -g -Os /tmp/s/special_input_file.c -o /tmp/s/special_input_file.c.o'',
      ''Compiling libraries...'']
     [(''c'', Path ''/tmp/s/special_input_file.c'')]
     = Inr [(''c'', [''avr-gcc'', ''-g'', ''-Os''])]
   \<and> (\<exists>lines line toks.
         lines_between
           [''Compiling sketch...'',
            ''avr-gcc -c -g -Os /tmp/s/special_input_file.c -o /tmp/s/special_input_file.c.o'',
            ''Compiling libraries...'']
           ''Compiling sketch...'' (Some ''Compiling libraries...'') = Inr lines
         \<and> List.find (contains_str (path_name (Path ''/tmp/s/special_input_file.c'') @ ''.o'')) lines
             = Some line
         \<and> shlex_split line = Inr toks
         \<and> filter (filter_function_compile (path_name (Path ''/tmp/s/special_input_file.c''))) toks
             = take 1 toks @ drop 2 (take (length toks - 3) toks)
         \<and> (''c'', filter (filter_function_compile (path_name (Path ''/tmp/s/special_input_file.c''))) toks)
             \<in> set [(''c'', [''avr-gcc'', ''-g'', ''-Os''])])
   \<and> compilation_command [''avr-gcc -g -c x.c -o x.c.o''] (Path ''/tmp/s/x.c'')
     = Inl (AssertionError ''Necessary arguments are usually all but the last 3'')"
proof -
  let ?out = "[''Compiling sketch...'',
      ''avr-gcc -c -g -Os /tmp/s/special_input_file.c -o /tmp/s/special_input_file.c.o'',
      ''Compiling libraries...'']"
  let ?p = "Path ''/tmp/s/special_input_file.c''"
  let ?res = "[(''c'', [''avr-gcc'', ''-g'', ''-Os''])]"
  let ?ts = "[''avr-gcc'', ''-g'', ''-c'', ''x.c'', ''-o'', ''x.c.o'']"
  have a: "parse_compilation_commands ?out [(''c'', ?p)] = Inr ?res"
    by code_simp
  have m: "(''c'', ?p) \<in> set [(''c'', ?p)]"
    by simp
  have b: "List.find (contains_str (path_name (Path ''/tmp/s/x.c'') @ ''.o''))
             [''avr-gcc -g -c x.c -o x.c.o''] = Some ''avr-gcc -g -c x.c -o x.c.o''
           \<and> shlex_split ''avr-gcc -g -c x.c -o x.c.o'' = Inr ?ts
           \<and> filter (filter_function_compile (path_name (Path ''/tmp/s/x.c''))) ?ts
               \<noteq> take 1 ?ts @ drop 2 (take (length ?ts - 3) ?ts)"
    by code_simp
  from parse_compilation_commands_consistency
         [where output_lines = ?out and mapping = "[(''c'', ?p)]" and res = ?res and ft = "''c''"
            and p = ?p] a m
  have c1: "\<exists>lines line toks.
         lines_between ?out ''Compiling sketch...'' (Some ''Compiling libraries...'') = Inr lines
         \<and> List.find (contains_str (path_name ?p @ ''.o'')) lines = Some line
         \<and> shlex_split line = Inr toks
         \<and> filter (filter_function_compile (path_name ?p)) toks
             = take 1 toks @ drop 2 (take (length toks - 3) toks)
         \<and> (''c'', filter (filter_function_compile (path_name ?p)) toks) \<in> set ?res"
    by blast
  from parse_compilation_commands_consistency
         [where p = "Path ''/tmp/s/x.c''" and compilation_lines = "[''avr-gcc -g -c x.c -o x.c.o'']"
            and l = "''avr-gcc -g -c x.c -o x.c.o''" and ts = ?ts] b
  have c2: "compilation_command [''avr-gcc -g -c x.c -o x.c.o''] (Path ''/tmp/s/x.c'')
     = Inl (AssertionError ''Necessary arguments are usually all but the last 3'')"
    by blast
  from a c1 c2 show ?thesis by blast
qed

subsection \<open>The compile recipe of the module miner\<close>

lemma build_tokens_source_first:
  "build_tokens stages_source_first probe_sources
     = Inr ([(ASM, ''avr-gcc''), (C, ''avr-gcc''), (CPP, ''avr-g++''), (INO, ''avr-g++'')],
            [(ASM, [''include1'']), (C, [''include1'', ''include2'']), (CPP, [''include1'']),
             (INO, [''include1''])],
            [(ASM, [''-x'', ''assembler-with-cpp'']), (C, []), (CPP, []), (INO, [])])"
  by code_simp

text \<open>
  Claim C1. On the line of the claim, where the name of the C file ends the line, the
  pattern \<open>special_input_file.c[ |$]\<close> is not found: its set \<open>[ |$]\<close> asks for a space, a
  bar or a dollar sign after the name and the end of the line is none of them. So
  \<open>identify_line\<close> finds no line for the C source and \<open>build_tokens\<close> raises
  \<open>MissingStageException(COMPILATION)\<close> instead of returning the recipe.
\<close>

theorem build_tokens_filename_at_end_of_line:
  "source_pattern (real_source_names probe_sources) C = ''special_input_file.c[ |$]''
   \<and> match_all [''special_input_file.c[ |$]''] c_line_output_first = Inr False
   \<and> identify_line COMPILATION stages_output_first
        (match_all [source_pattern (real_source_names probe_sources) C]) True
      = Inl (MissingStageException COMPILATION)
   \<and> build_tokens stages_output_first probe_sources = Inl (MissingStageException COMPILATION)"
  by code_simp

lemma replace_nonempty_absent:
  "\<not> contains_str old s \<Longrightarrow> replace_nonempty old new s = s"
  by (induction s) auto

text \<open>
  Claim C9. \<open>build_tokens\<close> removes the marker with \<open>path.replace('-I', '')\<close>, which deletes
  every \<open>-I\<close> of the token: for the include token \<open>-I/opt/Arduino-IDE/include\<close> the path
  returned for the C source is \<open>/opt/ArduinoDE/include\<close>.
\<close>

theorem build_tokens_include_path_altered:
  "include_paths_of [''-I/opt/Arduino-IDE/include''] = [''/opt/ArduinoDE/include'']
   \<and> build_tokens stages_dash_I_path probe_sources
     = Inr ([(ASM, ''avr-gcc''), (C, ''avr-gcc''), (CPP, ''avr-g++''), (INO, ''avr-g++'')],
            [(ASM, [''include1'']), (C, [''/opt/ArduinoDE/include'']), (CPP, [''include1'']),
             (INO, [''include1''])],
            [(ASM, [''-x'', ''assembler-with-cpp'']), (C, []), (CPP, []), (INO, [])])"
  by code_simp

lemma include_path_without_marker:
  assumes "\<not> contains_str ''-I'' p" and "p \<noteq> []"
  shows "include_paths_of [''-I'' @ p] = [p]"
proof -
  have "replace_nonempty ''-I'' [] (''-I'' @ p) = replace_nonempty ''-I'' [] p"
    by (simp add: startswith_def)
  with assms show ?thesis
    by (simp add: include_paths_of_def str_replace_def replace_nonempty_absent)
qed

subsection \<open>The link recipe\<close>

text \<open>
  Claim C2, as stated: the link objects returned are not \<open>a.o\<close> and \<open>b.o\<close>. The cleaner of
  \<open>link_tokens\<close> removes the tokens that match the object names of the sources before the
  line is sorted, so no object is left.
\<close>

theorem link_tokens_objects_cleaned:
  "object_names link_sources = [''a.o'', ''b.o'']
   \<and> link_cleaner [''a.o'', ''b.o'']
        [''avr-gcc'', ''-o'', ''sketch.ino.elf'', ''a.o'', ''b.o'', ''core.a'', ''-lm'',
         ''--start-group'', ''--end-group'']
      = Inr [''avr-gcc'', ''core.a'', ''-lm'', ''--start-group'', ''--end-group'']
   \<and> link_tokens link_stages link_sources
      \<noteq> Inr (''avr-gcc'', [], [''a.o'', ''b.o''],
              [''core.a'', ''-lm'', ''--start-group'', ''--end-group''])"
  by code_simp

text \<open>
  Claim C2, amended. For the link stage of the claim and sources whose object names are
  \<open>a.o\<close> and \<open>b.o\<close>, \<open>link_tokens\<close> returns the linker \<open>avr-gcc\<close>, no link flag, no link
  object (the objects of the sources are cleaned out of the line) and the link libraries
  \<open>core.a\<close>, \<open>-lm\<close>, \<open>--start-group\<close>, \<open>--end-group\<close>; \<open>post_link_lines\<close> returns exactly the
  \<open>avr-objcopy\<close> line.
\<close>

theorem link_scenario:
  "link_tokens link_stages link_sources
     = Inr (''avr-gcc'', [], [], [''core.a'', ''-lm'', ''--start-group'', ''--end-group''])
   \<and> post_link_lines link_stages link_sources
     = Inr [''avr-objcopy ... sketch.ino.elf sketch.hex'']"
  by code_simp

end
